theory Spec2Isabelle
  imports Complex_Main "HOL-Library.Sublist" "HOL-Library.Multiset"
begin

section \<open>Strings as Python sees them\<close>

text \<open>
  Python strings are sequences of code points. The embedding works with the code points
  below 256 (\<open>char\<close>), where \<open>len\<close> is \<open>length\<close>. \<open>isspace\<close> lists the
  code points below 256 that \<open>str.isspace\<close>, \<open>str.strip\<close>, \<open>str.split\<close> and the
  regular-expression class \<open>\s\<close> treat as whitespace.
\<close>

definition newline :: char where
  "newline = CHR 0x0A"

definition isspace :: "char \<Rightarrow> bool" where
  "isspace c = (c \<in> set [CHR 0x09, CHR 0x0A, CHR 0x0B, CHR 0x0C, CHR 0x0D, CHR 0x1C,
                          CHR 0x1D, CHR 0x1E, CHR 0x1F, CHR 0x20, CHR 0x85, CHR 0xA0])"

definition upper_letters :: string where
  "upper_letters = ''ABCDEFGHIJKLMNOPQRSTUVWXYZ'' @
     [CHR 0xC0, CHR 0xC1, CHR 0xC2, CHR 0xC3, CHR 0xC4, CHR 0xC5, CHR 0xC6, CHR 0xC7,
      CHR 0xC8, CHR 0xC9, CHR 0xCA, CHR 0xCB, CHR 0xCC, CHR 0xCD, CHR 0xCE, CHR 0xCF,
      CHR 0xD0, CHR 0xD1, CHR 0xD2, CHR 0xD3, CHR 0xD4, CHR 0xD5, CHR 0xD6,
      CHR 0xD8, CHR 0xD9, CHR 0xDA, CHR 0xDB, CHR 0xDC, CHR 0xDD, CHR 0xDE]"

definition lower_letters :: string where
  "lower_letters = ''abcdefghijklmnopqrstuvwxyz'' @
     [CHR 0xE0, CHR 0xE1, CHR 0xE2, CHR 0xE3, CHR 0xE4, CHR 0xE5, CHR 0xE6, CHR 0xE7,
      CHR 0xE8, CHR 0xE9, CHR 0xEA, CHR 0xEB, CHR 0xEC, CHR 0xED, CHR 0xEE, CHR 0xEF,
      CHR 0xF0, CHR 0xF1, CHR 0xF2, CHR 0xF3, CHR 0xF4, CHR 0xF5, CHR 0xF6,
      CHR 0xF8, CHR 0xF9, CHR 0xFA, CHR 0xFB, CHR 0xFC, CHR 0xFD, CHR 0xFE]"

definition lower_char :: "char \<Rightarrow> char" where
  "lower_char c = (case map_of (zip upper_letters lower_letters) c of
                     Some d \<Rightarrow> d | None \<Rightarrow> c)"

text \<open>\<open>s.lower()\<close>\<close>

definition str_lower :: "string \<Rightarrow> string" where
  "str_lower s = map lower_char s"

text \<open>\<open>s.strip()\<close>\<close>

definition str_strip :: "string \<Rightarrow> string" where
  "str_strip s = rev (dropWhile isspace (rev (dropWhile isspace s)))"

text \<open>\<open>s.split()\<close>: the maximal runs of non-whitespace characters, in order.\<close>

fun split_from :: "string \<Rightarrow> string \<Rightarrow> string list" where
  "split_from w [] = (if w = [] then [] else [w])"
| "split_from w (c # cs) =
     (if isspace c then (if w = [] then split_from [] cs else w # split_from [] cs)
      else split_from (w @ [c]) cs)"

definition str_split :: "string \<Rightarrow> string list" where
  "str_split s = split_from [] s"

text \<open>\<open>p in t\<close> on strings: \<open>p\<close> occurs in \<open>t\<close> as a contiguous run.\<close>

fun str_contains :: "string \<Rightarrow> string \<Rightarrow> bool" where
  "str_contains p [] = (p = [])"
| "str_contains p (c # cs) = (prefix p (c # cs) \<or> str_contains p cs)"

text \<open>
  Slices with one bound. \<open>slice_from i xs\<close> is \<open>xs[i:]\<close> and \<open>slice_to k xs\<close> is
  \<open>xs[:k]\<close>: a negative bound counts from the end, and every bound is clipped to the list.
\<close>

definition slice_from :: "int \<Rightarrow> 'a list \<Rightarrow> 'a list" where
  "slice_from i xs = (if 0 \<le> i then drop (nat i) xs else drop (nat (int (length xs) + i)) xs)"

definition slice_to :: "int \<Rightarrow> 'a list \<Rightarrow> 'a list" where
  "slice_to k xs = (if 0 \<le> k then take (nat k) xs else take (nat (int (length xs) + k)) xs)"

section \<open>The text chunker (\<open>text_chunker.py\<close>)\<close>

text \<open>
  A page as the chunker reads it (keys \<open>text\<close> and \<open>page_number\<close>), and a document
  (keys \<open>file_name\<close> and \<open>pages\<close>).
\<close>

record page_data =
  page_text :: string
  page_num :: int

record document_data =
  file_name :: string
  pages :: "page_data list"

text \<open>
  The dictionary built by \<open>_create_chunk\<close>, and the one \<open>chunk_document\<close> makes of it by
  adding \<open>chunk_id\<close> and \<open>document\<close>. \<open>relevance_score\<close> is the key that
  \<open>Retriever.retrieve\<close> adds to the dictionaries it returns; \<open>None\<close> is the key absent.
\<close>

record page_chunk =
  chunk_text :: string
  page_number :: int
  source :: string
  start_position :: int
  char_count :: int
  word_count :: int

record chunk = page_chunk +
  chunk_id :: int
  document :: string
  relevance_score :: "real option"

record TextChunker =
  chunk_size :: int
  chunk_overlap :: int
  min_chunk_size :: int

text \<open>\<open>CHUNK_SIZE\<close>, \<open>CHUNK_OVERLAP\<close> and \<open>MIN_CHUNK_SIZE\<close> of \<open>config.py\<close>.\<close>

definition default_chunker :: TextChunker where
  "default_chunker = \<lparr>chunk_size = 2000, chunk_overlap = 300, min_chunk_size = 100\<rparr>"

definition create_chunk :: "string \<Rightarrow> int \<Rightarrow> string \<Rightarrow> int \<Rightarrow> page_chunk" where
  "create_chunk t pn src start_pos =
     \<lparr>chunk_text = str_strip t, page_number = pn, source = src, start_position = start_pos,
      char_count = int (length (str_strip t)),
      word_count = int (length (str_split (str_strip t)))\<rparr>"

text \<open>
  \<open>re.split(r'\n\s*\n|\n{2,}', text)\<close>. A separator starts at a newline and, the
  whitespace class being greedy, runs to the last newline of the whitespace that
  follows; where that whitespace holds no newline neither alternative matches.
  \<open>sep_end cs\<close> is the number of characters of \<open>cs\<close>, the text after the first newline,
  that the separator takes.
\<close>

fun sep_end :: "string \<Rightarrow> nat option" where
  "sep_end [] = None"
| "sep_end (c # cs) =
     (if isspace c
      then (case sep_end cs of
              Some n \<Rightarrow> Some (Suc n)
            | None \<Rightarrow> if c = newline then Some 1 else None)
      else None)"

function re_split :: "string \<Rightarrow> string \<Rightarrow> string list" where
  "re_split piece [] = [piece]"
| "re_split piece (c # cs) =
     (if c = newline
      then (case sep_end cs of
              Some n \<Rightarrow> piece # re_split [] (drop n cs)
            | None \<Rightarrow> re_split (piece @ [c]) cs)
      else re_split (piece @ [c]) cs)"
  by pat_completeness auto
termination
  by (relation "measure (\<lambda>(piece, s). length s)") auto

definition split_into_paragraphs :: "string \<Rightarrow> string list" where
  "split_into_paragraphs t =
     map (\<lambda>p. str_strip p @ [newline, newline])
         (filter (\<lambda>p. str_strip p \<noteq> []) (re_split [] t))"

text \<open>
  The loop of \<open>_chunk_page\<close> over the paragraphs: the state is \<open>chunks\<close>,
  \<open>current_chunk\<close> and \<open>current_start\<close>.
\<close>

fun chunk_loop ::
  "TextChunker \<Rightarrow> int \<Rightarrow> string \<Rightarrow> string list \<Rightarrow> page_chunk list \<times> string \<times> int
     \<Rightarrow> page_chunk list \<times> string \<times> int" where
  "chunk_loop cfg pn src [] st = st"
| "chunk_loop cfg pn src (para # ps) (chunks, current_chunk, current_start) =
     (if int (length current_chunk) + int (length para) > chunk_size cfg
      then
        let chunks' = (if str_strip current_chunk \<noteq> []
                       then chunks @ [create_chunk current_chunk pn src current_start]
                       else chunks);
            current_chunk' = (if int (length current_chunk) > chunk_overlap cfg
                              then slice_from (- chunk_overlap cfg) current_chunk @ para
                              else para);
            current_start' = current_start + (int (length current_chunk') - chunk_overlap cfg)
        in chunk_loop cfg pn src ps (chunks', current_chunk', current_start')
      else chunk_loop cfg pn src ps (chunks, current_chunk @ para, current_start))"

definition chunk_page :: "TextChunker \<Rightarrow> string \<Rightarrow> int \<Rightarrow> string \<Rightarrow> page_chunk list" where
  "chunk_page cfg t pn src =
     (case chunk_loop cfg pn src (split_into_paragraphs t) ([], [], 0) of
        (chunks, current_chunk, current_start) \<Rightarrow>
          if int (length (str_strip current_chunk)) \<ge> min_chunk_size cfg
          then chunks @ [create_chunk current_chunk pn src current_start]
          else chunks)"

text \<open>
  \<open>chunk_document\<close>: the inner loop numbers the chunks of one page from the running
  \<open>chunk_id\<close>; the outer loop goes through the pages. The counter starts at 0 in every
  call.
\<close>

fun number_chunks :: "string \<Rightarrow> int \<Rightarrow> page_chunk list \<Rightarrow> chunk list \<times> int" where
  "number_chunks fname cid [] = ([], cid)"
| "number_chunks fname cid (c # cs) =
     (case number_chunks fname (cid + 1) cs of
        (rest, cid') \<Rightarrow>
          (page_chunk.extend c (chunk.fields cid fname None) # rest, cid'))"

fun chunk_pages :: "TextChunker \<Rightarrow> string \<Rightarrow> int \<Rightarrow> page_data list \<Rightarrow> chunk list" where
  "chunk_pages cfg fname cid [] = []"
| "chunk_pages cfg fname cid (p # ps) =
     (case number_chunks fname cid (chunk_page cfg (page_text p) (page_num p) fname) of
        (page_chunks, cid') \<Rightarrow> page_chunks @ chunk_pages cfg fname cid' ps)"

definition chunk_document :: "TextChunker \<Rightarrow> document_data \<Rightarrow> chunk list" where
  "chunk_document cfg doc = chunk_pages cfg (file_name doc) 0 (pages doc)"

text \<open>\<open>chunk_documents\<close>: one \<open>TextChunker()\<close> with the defaults, the results appended.\<close>

fun chunk_documents_loop :: "chunk list \<Rightarrow> document_data list \<Rightarrow> chunk list" where
  "chunk_documents_loop all_chunks [] = all_chunks"
| "chunk_documents_loop all_chunks (doc # docs) =
     chunk_documents_loop (all_chunks @ chunk_document default_chunker doc) docs"

definition chunk_documents :: "document_data list \<Rightarrow> chunk list" where
  "chunk_documents docs = chunk_documents_loop [] docs"

section \<open>The heap of chunk dictionaries\<close>

text \<open>
  A chunk is a mutable dictionary, and lists hold references to dictionaries. The heap
  is the list of all dictionaries allocated so far; a reference is a position in it.
  Allocation appends, so a fresh reference differs from every reference in use. The
  program never holds a reference outside the heap; the theorems state this as
  \<open>refs_ok\<close>.
\<close>

type_synonym addr = nat

type_synonym heap = "chunk list"

definition alloc :: "chunk \<Rightarrow> heap \<Rightarrow> addr \<times> heap" where
  "alloc c h = (length h, h @ [c])"

definition refs_ok :: "addr list \<Rightarrow> heap \<Rightarrow> bool" where
  "refs_ok refs h = list_all (\<lambda>a. a < length h) refs"

section \<open>The vector store (\<open>vector_store.py\<close>)\<close>

datatype error = ZeroDivisionError | IndexError | ValueError | NotFittedError | AttributeError

text \<open>
  The store calls scikit-learn and NumPy, which are not part of the repository. They
  are parameters of the model:
  \<^item> \<open>fit_transform\<close> is \<open>TfidfVectorizer.fit_transform\<close>: from the texts, the fitted
    vectorizer and one row per text, or \<open>None\<close> where it raises \<open>ValueError\<close> (an
    empty vocabulary);
  \<^item> \<open>transform\<close> is \<open>TfidfVectorizer.transform\<close> of one query;
  \<^item> \<open>cosine\<close> is one entry of \<open>cosine_similarity\<close>, a float read as a real;
  \<^item> \<open>argsort\<close> is \<open>np.argsort\<close>;
  \<^item> \<open>vocabulary_len\<close> is \<open>len(vectorizer.vocabulary_)\<close>.
\<close>

record ('m, 'v) library =
  fit_transform :: "string list \<Rightarrow> ('m \<times> 'v list) option"
  transform :: "'m \<Rightarrow> string \<Rightarrow> 'v"
  cosine :: "'v \<Rightarrow> 'v \<Rightarrow> real"
  argsort :: "real list \<Rightarrow> nat list"
  vocabulary_len :: "'m \<Rightarrow> nat"

text \<open>
  What NumPy promises of \<open>argsort\<close>: the positions of the array, each once, in
  ascending order of their values. The order of equal values is left open.
\<close>

definition is_argsort :: "real list \<Rightarrow> nat list \<Rightarrow> bool" where
  "is_argsort xs p =
     (length p = length xs \<and> distinct p \<and> list_all (\<lambda>i. i < length xs) p \<and>
      sorted (map (\<lambda>i. xs ! i) p))"

text \<open>
  The fields of \<open>VectorStore\<close>. \<open>vectorizer\<close> is \<open>None\<close> while the vectorizer is not
  fitted, \<open>vectors\<close> is \<open>None\<close> as in \<open>__init__\<close>.
\<close>

record ('m, 'v) VectorStore =
  chunks :: "addr list"
  vectorizer :: "'m option"
  vectors :: "'v list option"
  is_indexed :: bool

definition VectorStore_init :: "('m, 'v) VectorStore" where
  "VectorStore_init = \<lparr>chunks = [], vectorizer = None, vectors = None, is_indexed = False\<rparr>"

text \<open>
  \<open>_build_index\<close> and \<open>add_chunks\<close> return nothing and change the store: the model
  returns the exception raised, if any, and the store as the call leaves it.
\<close>

definition build_index ::
  "('m, 'v) library \<Rightarrow> ('m, 'v) VectorStore \<Rightarrow> heap \<Rightarrow> error option \<times> ('m, 'v) VectorStore" where
  "build_index lib s h =
     (if chunks s = [] then (None, s)
      else
        let texts = map (\<lambda>a. chunk_text (h ! a)) (chunks s)
        in case fit_transform lib texts of
             None \<Rightarrow> (Some ValueError, s)
           | Some (m, vs) \<Rightarrow>
               (None, s\<lparr>vectorizer := Some m, vectors := Some vs, is_indexed := True\<rparr>))"

definition add_chunks ::
  "('m, 'v) library \<Rightarrow> addr list \<Rightarrow> ('m, 'v) VectorStore \<Rightarrow> heap
     \<Rightarrow> error option \<times> ('m, 'v) VectorStore" where
  "add_chunks lib cs s h = build_index lib (s\<lparr>chunks := cs\<rparr>) h"

text \<open>
  The loop of \<open>search\<close> over \<open>top_indices\<close>. \<open>similarities[idx]\<close> and
  \<open>self.chunks[idx]\<close> raise \<open>IndexError\<close> past the end; \<open>.copy()\<close> allocates a new
  dictionary with the same entries.
\<close>

fun search_loop ::
  "addr list \<Rightarrow> real list \<Rightarrow> real \<Rightarrow> nat list \<Rightarrow> (addr \<times> real) list \<Rightarrow> heap
     \<Rightarrow> (error + (addr \<times> real) list) \<times> heap" where
  "search_loop cs sims threshold [] results h = (Inr results, h)"
| "search_loop cs sims threshold (idx # rest) results h =
     (if idx < length sims
      then
        (if sims ! idx \<ge> threshold
         then
           (if idx < length cs
            then (case alloc (h ! (cs ! idx)) h of
                    (a, h') \<Rightarrow>
                      search_loop cs sims threshold rest (results @ [(a, sims ! idx)]) h')
            else (Inl IndexError, h))
         else search_loop cs sims threshold rest results h)
      else (Inl IndexError, h))"

text \<open>
  The similarities of a query against the rows of the store. With \<open>vectors\<close> still
  \<open>None\<close>, \<open>cosine_similarity(X, None)\<close> compares the query with itself.
\<close>

definition similarities :: "('m, 'v) library \<Rightarrow> 'm \<Rightarrow> 'v list option \<Rightarrow> string \<Rightarrow> real list" where
  "similarities lib m vs query =
     (let query_vector = transform lib m query
      in map (cosine lib query_vector) (case vs of None \<Rightarrow> [query_vector] | Some rows \<Rightarrow> rows))"

text \<open>\<open>np.argsort(similarities)[::-1][:top_k]\<close>\<close>

definition top_indices :: "('m, 'v) library \<Rightarrow> real list \<Rightarrow> int \<Rightarrow> nat list" where
  "top_indices lib sims top_k = slice_to top_k (rev (argsort lib sims))"

definition search ::
  "('m, 'v) library \<Rightarrow> ('m, 'v) VectorStore \<Rightarrow> string \<Rightarrow> int \<Rightarrow> real \<Rightarrow> heap
     \<Rightarrow> (error + (addr \<times> real) list) \<times> heap" where
  "search lib s query top_k threshold h =
     (if \<not> is_indexed s then (Inr [], h)
      else
        case vectorizer s of
          None \<Rightarrow> (Inl NotFittedError, h)
        | Some m \<Rightarrow>
            let sims = similarities lib m (vectors s) query
            in search_loop (chunks s) sims threshold (top_indices lib sims top_k) [] h)"

text \<open>
  \<open>get_stats\<close> reads the store and changes nothing. On an indexed store whose
  vectorizer is not fitted, \<open>vocabulary_\<close> does not exist and the read raises
  \<open>AttributeError\<close>.
\<close>

record stats =
  total_chunks :: nat
  stats_is_indexed :: bool
  vocabulary_size :: nat
  documents :: nat

definition get_stats :: "('m, 'v) library \<Rightarrow> ('m, 'v) VectorStore \<Rightarrow> heap \<Rightarrow> error + stats" where
  "get_stats lib s h =
     (if is_indexed s \<and> vectorizer s = None then Inl AttributeError
      else Inr
        \<lparr>total_chunks = length (chunks s),
         stats_is_indexed = is_indexed s,
         vocabulary_size = (case vectorizer s of
                              None \<Rightarrow> 0
                            | Some m \<Rightarrow> if is_indexed s then vocabulary_len lib m else 0),
         documents = length (remdups (map (\<lambda>a. document (h ! a)) (chunks s)))\<rparr>)"

text \<open>
  The invariant of the index: as many rows as stored chunks (no rows while \<open>vectors\<close>
  is \<open>None\<close>).
\<close>

definition vector_rows :: "('m, 'v) VectorStore \<Rightarrow> nat" where
  "vector_rows s = (case vectors s of None \<Rightarrow> 0 | Some vs \<Rightarrow> length vs)"

definition aligned :: "('m, 'v) VectorStore \<Rightarrow> bool" where
  "aligned s = (vector_rows s = length (chunks s))"

text \<open>A built index: indexed, the vectorizer fitted, the rows aligned with the chunks.\<close>

definition built :: "('m, 'v) VectorStore \<Rightarrow> bool" where
  "built s = (is_indexed s \<and> vectorizer s \<noteq> None \<and> vectors s \<noteq> None \<and> aligned s)"

section \<open>The retriever (\<open>retriever.py\<close>)\<close>

definition enhancements :: "(string \<times> string) list" where
  "enhancements =
     [(''address'', ''address registered office location''),
      (''director'', ''director board member officer''),
      (''kyc'', ''kyc know your customer verification''),
      (''document'', ''document form certificate'')]"

fun enhance_loop :: "string \<Rightarrow> (string \<times> string) list \<Rightarrow> string" where
  "enhance_loop query [] = query"
| "enhance_loop query ((key, expansion) # rest) =
     (if str_contains key (str_lower query) then query @ '' '' @ expansion
      else enhance_loop query rest)"

definition enhance_query :: "string \<Rightarrow> string" where
  "enhance_query query = enhance_loop query enhancements"

text \<open>
  \<open>query_terms = set(query.lower().split())\<close>: the distinct terms. The set is only
  counted and tested for membership of its elements in the text, so its order does not
  matter.
\<close>

definition query_terms :: "string \<Rightarrow> string list" where
  "query_terms query = remdups (str_split (str_lower query))"

text \<open>
  The loop of \<open>_rerank_results\<close>. Scores are floats, read as reals. The division
  raises \<open>ZeroDivisionError\<close> when the query has no term.
\<close>

fun rerank_loop ::
  "string \<Rightarrow> heap \<Rightarrow> (addr \<times> real) list \<Rightarrow> (addr \<times> real) list \<Rightarrow> error + (addr \<times> real) list" where
  "rerank_loop query h [] scored_results = Inr scored_results"
| "rerank_loop query h ((a, base_score) # rest) scored_results =
     (let text_lower = str_lower (chunk_text (h ! a));
          phrase_bonus = (if str_contains (str_lower query) text_lower then 0.2 else 0);
          term_matches = length (filter (\<lambda>term. str_contains term text_lower) (query_terms query))
      in if length (query_terms query) = 0 then Inl ZeroDivisionError
         else
           let term_bonus = (real term_matches / real (length (query_terms query))) * 0.1;
               length_factor = min (real_of_int (char_count (h ! a)) / 1000) 1.0 * 0.05;
               final_score = base_score + phrase_bonus + term_bonus + length_factor
           in rerank_loop query h rest (scored_results @ [(a, final_score)]))"

text \<open>
  \<open>scored_results.sort(key=lambda x: x[1], reverse=True)\<close>: descending by score, and,
  the sort being stable, equal scores stay in their order.
\<close>

definition sort_by_score_desc :: "(addr \<times> real) list \<Rightarrow> (addr \<times> real) list" where
  "sort_by_score_desc xs = sort_key (\<lambda>x. - snd x) xs"

definition rerank_results ::
  "string \<Rightarrow> (addr \<times> real) list \<Rightarrow> heap \<Rightarrow> error + (addr \<times> real) list" where
  "rerank_results query results h =
     (if results = [] then Inr results
      else case rerank_loop query h results [] of
             Inl e \<Rightarrow> Inl e
           | Inr scored_results \<Rightarrow> Inr (sort_by_score_desc scored_results))"

text \<open>The last loop of \<open>retrieve\<close>: \<open>chunk['relevance_score'] = score\<close> writes to the heap.\<close>

fun format_results :: "(addr \<times> real) list \<Rightarrow> heap \<Rightarrow> addr list \<times> heap" where
  "format_results [] h = ([], h)"
| "format_results ((a, score) # rest) h =
     (case format_results rest (h[a := (h ! a)\<lparr>relevance_score := Some score\<rparr>]) of
        (formatted, h') \<Rightarrow> (a # formatted, h'))"

text \<open>\<open>if filter_document:\<close> holds for a string that is not empty.\<close>

definition filter_by_document ::
  "string option \<Rightarrow> heap \<Rightarrow> (addr \<times> real) list \<Rightarrow> (addr \<times> real) list" where
  "filter_by_document filter_document h results =
     (case filter_document of
        None \<Rightarrow> results
      | Some d \<Rightarrow> if d = [] then results
                  else filter (\<lambda>(a, score). document (h ! a) = d) results)"

definition retrieve ::
  "('m, 'v) library \<Rightarrow> ('m, 'v) VectorStore \<Rightarrow> string \<Rightarrow> int \<Rightarrow> real \<Rightarrow> string option \<Rightarrow> heap
     \<Rightarrow> (error + addr list) \<times> heap" where
  "retrieve lib s query max_results threshold filter_document h =
     (case search lib s (enhance_query query) (max_results * 2) threshold h of
        (Inl e, h') \<Rightarrow> (Inl e, h')
      | (Inr results, h') \<Rightarrow>
          (case rerank_results query (filter_by_document filter_document h' results) h' of
             Inl e \<Rightarrow> (Inl e, h')
           | Inr reranked \<Rightarrow>
               (case format_results (slice_to max_results reranked) h' of
                  (formatted_results, h'') \<Rightarrow> (Inr formatted_results, h''))))"

text \<open>\<open>MAX_SEARCH_RESULTS\<close> and \<open>RELEVANCE_THRESHOLD\<close> of \<open>config.py\<close>.\<close>

definition MAX_SEARCH_RESULTS :: int where
  "MAX_SEARCH_RESULTS = 8"

definition RELEVANCE_THRESHOLD :: real where
  "RELEVANCE_THRESHOLD = 0.3"

section \<open>The scoring formula in the specification's words\<close>


text \<open>
  The same formula with the two readings the code takes: the chunk text is lower-cased
  before the look-ups, and the fraction is taken over the set of distinct terms.
\<close>

definition lowered_final_score :: "string \<Rightarrow> chunk \<Rightarrow> real \<Rightarrow> real" where
  "lowered_final_score query c base_score =
     (let ts = set (str_split (str_lower query));
          text_lower = str_lower (chunk_text c)
      in base_score
         + (if str_contains (str_lower query) text_lower then 0.2 else 0)
         + 0.1 * (real (card {w \<in> ts. str_contains w text_lower}) / real (card ts))
         + 0.05 * min (real_of_int (char_count c) / 1000) 1)"

section \<open>A library instance and concrete inputs\<close>

text \<open>
  A small instance of the library parameters, on which the model runs on concrete
  inputs: a row marks the vocabulary terms that occur in the text, the similarity of
  two rows is the share of common terms among the terms of either, \<open>fit_transform\<close>
  fails on an empty vocabulary, and \<open>argsort\<close> is a stable insertion sort of the
  positions (NumPy's algorithm on short arrays). The general theorems hold for every
  library; only the closed examples use this one.
\<close>

definition terms_of :: "string \<Rightarrow> string list" where
  "terms_of t = remdups (str_split (str_lower t))"

definition overlap_library :: "(string list, bool list) library" where
  "overlap_library =
     \<lparr>fit_transform = (\<lambda>texts.
          let vocabulary = remdups (concat (map terms_of texts))
          in if vocabulary = [] then None
             else Some (vocabulary,
                        map (\<lambda>t. map (\<lambda>w. w \<in> set (terms_of t)) vocabulary) texts)),
      transform = (\<lambda>vocabulary q. map (\<lambda>w. w \<in> set (terms_of q)) vocabulary),
      cosine = (\<lambda>u v.
          let both = length (filter (\<lambda>(x, y). x \<and> y) (zip u v));
              either = length (filter (\<lambda>(x, y). x \<or> y) (zip u v))
          in if either = 0 then 0 else real both / real either),
      argsort = (\<lambda>xs. sort_key (\<lambda>i. xs ! i) [0..<length xs]),
      vocabulary_len = length\<rparr>"

text \<open>A chunk of page 1 of a document, as \<open>chunk_document\<close> builds it.\<close>

definition example_chunk :: "int \<Rightarrow> string \<Rightarrow> string \<Rightarrow> chunk" where
  "example_chunk cid doc t =
     page_chunk.extend (create_chunk t 1 doc 0) (chunk.fields cid doc None)"

text \<open>Two chunks with the same text: every query is equally similar to both.\<close>

definition twin_heap :: heap where
  "twin_heap = [example_chunk 0 ''a.pdf'' ''alpha beta'', example_chunk 1 ''a.pdf'' ''alpha beta'']"

definition twin_store :: "(string list, bool list) VectorStore" where
  "twin_store = snd (add_chunks overlap_library [0, 1] VectorStore_init twin_heap)"

text \<open>Three chunks of different similarity to the query \<open>alpha\<close>.\<close>

definition trio_heap :: heap where
  "trio_heap = [example_chunk 0 ''a.pdf'' ''alpha beta'', example_chunk 1 ''a.pdf'' ''alpha'',
                example_chunk 2 ''b.pdf'' ''gamma'']"

definition trio_store :: "(string list, bool list) VectorStore" where
  "trio_store = snd (add_chunks overlap_library [0, 1, 2] VectorStore_init trio_heap)"

definition fresh_store :: "(string list, bool list) VectorStore" where
  "fresh_store = VectorStore_init"


text \<open>Two documents of one page each, long enough for the default \<open>min_chunk_size\<close>.\<close>

definition two_documents :: "document_data list" where
  "two_documents =
     [\<lparr>file_name = ''a.pdf'', pages = [\<lparr>page_text = replicate 100 CHR ''x'', page_num = 1\<rparr>]\<rparr>,
      \<lparr>file_name = ''b.pdf'', pages = [\<lparr>page_text = replicate 100 CHR ''y'', page_num = 1\<rparr>]\<rparr>]"

text \<open>A chunker without overlap, and a page of two paragraphs of six letters.\<close>

definition no_overlap_chunker :: TextChunker where
  "no_overlap_chunker = \<lparr>chunk_size = 10, chunk_overlap = 0, min_chunk_size = 1\<rparr>"

definition two_paragraphs :: string where
  "two_paragraphs = ''aaaaaa'' @ [newline, newline] @ ''bbbbbb''"

text \<open>The references a search result holds.\<close>

definition result_refs :: "error + (addr \<times> real) list \<Rightarrow> addr list" where
  "result_refs r = (case r of Inl e \<Rightarrow> [] | Inr results \<Rightarrow> map fst results)"

text \<open>
  \<open>argsort\<close> keeps its promise on the similarities of this query (nothing to keep
  while the vectorizer is not fitted).
\<close>

definition argsort_ok :: "('m, 'v) library \<Rightarrow> ('m, 'v) VectorStore \<Rightarrow> string \<Rightarrow> bool" where
  "argsort_ok lib s query =
     (case vectorizer s of
        None \<Rightarrow> True
      | Some m \<Rightarrow> is_argsort (similarities lib m (vectors s) query)
                           (argsort lib (similarities lib m (vectors s) query)))"

text \<open>The twin store after a second \<open>add_chunks\<close>, with no chunks.\<close>

definition emptied_store :: "(string list, bool list) VectorStore" where
  "emptied_store = snd (add_chunks overlap_library [] twin_store twin_heap)"

text \<open>The vocabulary fitted on the three chunks, and the similarities of the query \<open>alpha\<close>.\<close>

definition trio_vocabulary :: "string list" where
  "trio_vocabulary = [''beta'', ''alpha'', ''gamma'']"

definition trio_sims :: "real list" where
  "trio_sims = similarities overlap_library trio_vocabulary (vectors trio_store) ''alpha''"

section \<open>Properties of the chunker\<close>

subsection \<open>Chunk identifiers\<close>

lemma number_chunks_ids:
  "map chunk_id (fst (number_chunks f cid cs)) = map (\<lambda>i. cid + int i) [0..<length cs] \<and>
   snd (number_chunks f cid cs) = cid + int (length cs) \<and>
   length (fst (number_chunks f cid cs)) = length cs"
proof (induction cs arbitrary: cid)
  case Nil
  then show ?case by simp
next
  case (Cons c cs)
  have "map (\<lambda>i. cid + int i) [0..<Suc (length cs)] = cid # map (\<lambda>i. cid + 1 + int i) [0..<length cs]"
    by (simp add: upt_conv_Cons map_Suc_upt [symmetric] del: upt_Suc) 
  with Cons [of "cid + 1"] show ?case
    by (simp add: split_beta page_chunk.defs chunk.defs)
qed

lemma map_upt_shift:
  "map (\<lambda>i. (c::int) + int i) [0..<n + m] =
     map (\<lambda>i. c + int i) [0..<n] @ map (\<lambda>i. c + int n + int i) [0..<m]"
proof (induction m)
  case 0
  then show ?case by simp
next
  case (Suc m)
  then show ?case by (simp add: add.assoc)
qed

lemma chunk_pages_ids:
  "map chunk_id (chunk_pages cfg f cid ps) =
     map (\<lambda>i. cid + int i) [0..<length (chunk_pages cfg f cid ps)]"
proof (induction ps arbitrary: cid)
  case Nil
  then show ?case by simp
next
  case (Cons p ps)
  define pc where "pc = chunk_page cfg (page_text p) (page_num p) f"
  define n where "n = length pc"
  define numbered where "numbered = fst (number_chunks f cid pc)"
  define rest where "rest = chunk_pages cfg f (cid + int n) ps"
  have nc: "map chunk_id numbered = map (\<lambda>i. cid + int i) [0..<n]"
    and sn: "snd (number_chunks f cid pc) = cid + int n"
    and ln: "length numbered = n"
    using number_chunks_ids [of f cid pc] by (simp_all add: n_def numbered_def)
  have eq: "chunk_pages cfg f cid (p # ps) = numbered @ rest"
    using sn by (simp add: split_beta pc_def [symmetric] numbered_def rest_def)
  have ih: "map chunk_id rest = map (\<lambda>i. cid + int n + int i) [0..<length rest]"
    unfolding rest_def by (rule Cons)
  have "map chunk_id (numbered @ rest) = map (\<lambda>i. cid + int i) [0..<n + length rest]"
    unfolding map_upt_shift map_append nc ih ..
  then show ?case unfolding eq by (simp add: ln)
qed

lemma chunk_documents_loop_concat:
  "chunk_documents_loop acc docs = acc @ concat (map (chunk_document default_chunker) docs)"
  by (induction docs arbitrary: acc) simp_all

text \<open>
  Claim C2, as the code has it. The chunk identifiers of one document are 0, 1, 2, ... in
  emission order: unique and increasing within the document, and not reset from page to
  page. \<open>chunk_documents\<close> appends the results of \<open>chunk_document\<close>, which starts its
  counter at 0 in every call, so the identifiers start again at 0 in every document of
  the corpus.
\<close>

theorem chunk_ids_number_each_document:
  "map chunk_id (chunk_document cfg doc) = map int [0..<length (chunk_document cfg doc)] \<and>
   chunk_documents docs = concat (map (chunk_document default_chunker) docs)"
  using chunk_pages_ids [of cfg "file_name doc" 0 "pages doc"]
  by (simp add: chunk_document_def chunk_documents_def chunk_documents_loop_concat)

text \<open>
  Claim C2 as stated fails: in a corpus of two documents of one chunk each, both chunks
  get the identifier 0, so the identifiers are not unique across the corpus.
\<close>

theorem chunk_ids_repeat_across_documents:
  "map chunk_id (chunk_documents two_documents) = [0, 0] \<and>
   \<not> distinct (map chunk_id (chunk_documents two_documents))"
  by code_simp

subsection \<open>Chunk sizes\<close>

lemma length_str_strip: "length (str_strip s) \<le> length s"
proof -
  have "length (dropWhile isspace (rev (dropWhile isspace s))) \<le> length (rev (dropWhile isspace s))"
    by (rule length_dropWhile_le)
  also have "\<dots> \<le> length s" by (simp add: length_dropWhile_le)
  finally show ?thesis by (simp add: str_strip_def)
qed

lemma char_count_create_chunk:
  "char_count (create_chunk t pn src st) \<le> int (length t)"
  using length_str_strip [of t] by (simp add: create_chunk_def)

lemma length_slice_from_neg:
  "0 < k \<Longrightarrow> int (length (slice_from (- k) xs)) \<le> k"
  by (simp add: slice_from_def)

lemma chunk_loop_bound:
  assumes "0 < chunk_overlap cfg"
    and "\<forall>p\<in>set ps. int (length p) \<le> chunk_size cfg"
    and "int (length cur) \<le> chunk_size cfg + chunk_overlap cfg"
    and "\<forall>c\<in>set out. char_count c \<le> chunk_size cfg + chunk_overlap cfg"
    and "chunk_loop cfg pn src ps (out, cur, start) = (out', cur', start')"
  shows "(\<forall>c\<in>set out'. char_count c \<le> chunk_size cfg + chunk_overlap cfg) \<and>
         int (length cur') \<le> chunk_size cfg + chunk_overlap cfg"
  using assms
proof (induction ps arbitrary: out cur start)
  case Nil
  then show ?case by simp
next
  case (Cons para ps)
  let ?B = "chunk_size cfg + chunk_overlap cfg"
  have para: "int (length para) \<le> chunk_size cfg" and rest: "\<forall>p\<in>set ps. int (length p) \<le> chunk_size cfg"
    using Cons.prems(2) by simp_all
  show ?case
  proof (cases "int (length cur) + int (length para) > chunk_size cfg")
    case False
    then have step: "chunk_loop cfg pn src ps (out, cur @ para, start) = (out', cur', start')"
      using Cons.prems(5) by simp
    have "int (length (cur @ para)) \<le> ?B" using False Cons.prems(1) by simp
    from Cons.IH [OF Cons.prems(1) rest this Cons.prems(4) step] show ?thesis .
  next
    case True
    define out1 where "out1 = (if str_strip cur \<noteq> []
                       then out @ [create_chunk cur pn src start] else out)"
    define cur1 where "cur1 = (if int (length cur) > chunk_overlap cfg
                              then slice_from (- chunk_overlap cfg) cur @ para else para)"
    define start1 where "start1 = start + (int (length cur1) - chunk_overlap cfg)"
    have step: "chunk_loop cfg pn src ps (out1, cur1, start1) = (out', cur', start')"
      using Cons.prems(5) True by (simp add: out1_def cur1_def start1_def Let_def)
    have c1: "\<forall>c\<in>set out1. char_count c \<le> ?B"
      using Cons.prems(3,4) char_count_create_chunk [of cur pn src start]
      by (auto simp: out1_def)
    have l1: "int (length cur1) \<le> ?B"
      using para Cons.prems(1) length_slice_from_neg [of "chunk_overlap cfg" cur]
      by (auto simp: cur1_def)
    from Cons.IH [OF Cons.prems(1) rest l1 c1 step] show ?thesis .
  qed
qed

lemma chunk_page_bound:
  assumes "0 < chunk_overlap cfg" and "0 \<le> chunk_size cfg"
    and "\<forall>p\<in>set (split_into_paragraphs t). int (length p) \<le> chunk_size cfg"
  shows "\<forall>c\<in>set (chunk_page cfg t pn src). char_count c \<le> chunk_size cfg + chunk_overlap cfg"
proof -
  obtain out' cur' start' where
    loop: "chunk_loop cfg pn src (split_into_paragraphs t) ([], [], 0) = (out', cur', start')"
    by (metis prod_cases3)
  have "(\<forall>c\<in>set out'. char_count c \<le> chunk_size cfg + chunk_overlap cfg) \<and>
         int (length cur') \<le> chunk_size cfg + chunk_overlap cfg"
    using chunk_loop_bound [OF assms(1) assms(3) _ _ loop] assms(1,2) by simp
  then show ?thesis
    using char_count_create_chunk [of cur' pn src start']
    by (auto simp: chunk_page_def loop)
qed

text \<open>
  Claim C7 on a chunker without overlap. Both paragraphs have length 8, within the
  \<open>chunk_size\<close> of 10, and the second chunk has 14 characters, more than
  \<open>chunk_size + chunk_overlap = 10\<close>: with \<open>chunk_overlap = 0\<close> the slice
  \<open>current_chunk[-0:]\<close> is the whole buffer, not its last 0 characters, so the buffer
  is never cut.
\<close>

theorem chunk_exceeds_bound_without_overlap:
  "map length (split_into_paragraphs two_paragraphs) = [8, 8] \<and>
   chunk_size no_overlap_chunker + chunk_overlap no_overlap_chunker = 10 \<and>
   map char_count (chunk_page no_overlap_chunker two_paragraphs 1 ''a.pdf'') = [6, 14]"
  by code_simp

section \<open>Properties of the vector store\<close>

subsection \<open>The loop of search\<close>

lemma slice_to_subset: "set (slice_to k xs) \<subseteq> set xs"
  by (auto simp: slice_to_def dest: in_set_takeD)

lemma refs_ok_append: "refs_ok cs h \<Longrightarrow> refs_ok cs (h @ ext)"
  by (induction cs) (auto simp: refs_ok_def)

lemma refs_ok_nth: "refs_ok cs h \<Longrightarrow> i < length cs \<Longrightarrow> cs ! i < length h"
  by (simp add: refs_ok_def list_all_length)

text \<open>
  The loop of \<open>search\<close> on positions that are in range: one copy per hit, appended
  to the heap.
\<close>

lemma search_loop_hits:
  assumes "list_all (\<lambda>i. i < length sims \<and> i < length cs) idxs" and "refs_ok cs h"
  shows "search_loop cs sims th idxs results h =
           (Inr (results @ zip [length h..<length h + length (filter (\<lambda>i. th \<le> sims ! i) idxs)]
                               (map (\<lambda>i. sims ! i) (filter (\<lambda>i. th \<le> sims ! i) idxs))),
            h @ map (\<lambda>i. h ! (cs ! i)) (filter (\<lambda>i. th \<le> sims ! i) idxs))"
  using assms
proof (induction idxs arbitrary: results h)
  case Nil
  then show ?case by simp
next
  case (Cons idx rest)
  have in_range: "idx < length sims" "idx < length cs"
    and rest_ok: "list_all (\<lambda>i. i < length sims \<and> i < length cs) rest"
    using Cons.prems(1) by simp_all
  show ?case
  proof (cases "th \<le> sims ! idx")
    case False
    then show ?thesis
      using in_range Cons.IH [OF rest_ok Cons.prems(2)] by simp
  next
    case True
    let ?h' = "h @ [h ! (cs ! idx)]"
    let ?hits = "filter (\<lambda>i. th \<le> sims ! i) rest"
    have ok': "refs_ok cs ?h'" using Cons.prems(2) by (rule refs_ok_append)
    have same: "map (\<lambda>i. ?h' ! (cs ! i)) ?hits = map (\<lambda>i. h ! (cs ! i)) ?hits"
    proof (rule map_cong [OF refl])
      fix i assume "i \<in> set ?hits"
      then have "i < length cs" using rest_ok by (auto simp: list_all_iff)
      then have "cs ! i < length h" using Cons.prems(2) by (rule refs_ok_nth [rotated])
      then show "?h' ! (cs ! i) = h ! (cs ! i)" by (simp add: nth_append)
    qed
    have step: "search_loop cs sims th (idx # rest) results h =
          search_loop cs sims th rest (results @ [(length h, sims ! idx)]) ?h'"
      using in_range True by (simp add: alloc_def)
    have ih: "search_loop cs sims th rest (results @ [(length h, sims ! idx)]) ?h' =
                (Inr ((results @ [(length h, sims ! idx)]) @
                        zip [length ?h'..<length ?h' + length ?hits] (map (\<lambda>i. sims ! i) ?hits)),
                    ?h' @ map (\<lambda>i. ?h' ! (cs ! i)) ?hits)"
      by (rule Cons.IH [OF rest_ok ok'])
    have filt: "filter (\<lambda>i. th \<le> sims ! i) (idx # rest) = idx # ?hits"
      using True by simp
    have res_eq: "(results @ [(length h, sims ! idx)]) @
                    zip [length ?h'..<length ?h' + length ?hits] (map (\<lambda>i. sims ! i) ?hits) =
                  results @ zip [length h..<length h + length (idx # ?hits)]
                                (map (\<lambda>i. sims ! i) (idx # ?hits))"
      by (simp add: upt_conv_Cons del: upt_Suc)
    have heap_eq: "?h' @ map (\<lambda>i. ?h' ! (cs ! i)) ?hits =
                   h @ map (\<lambda>i. h ! (cs ! i)) (idx # ?hits)"
      unfolding same by simp
    show ?thesis unfolding step ih filt res_eq heap_eq ..
  qed
qed

text \<open>
  Whatever the positions: the loop only appends to the heap, and what it adds to the
  results are references into the appended part.
\<close>

lemma search_loop_frame:
  "search_loop cs sims th idxs results h = (r, h') \<Longrightarrow>
     (\<exists>ext. h' = h @ ext) \<and>
     set (result_refs r) \<subseteq> set (map fst results) \<union> {length h..<length h'}"
proof (induction idxs arbitrary: results h)
  case Nil
  then show ?case by (auto simp: result_refs_def)
next
  case (Cons idx rest)
  show ?case
  proof (cases "idx < length sims \<and> th \<le> sims ! idx \<and> idx < length cs")
    case True
    let ?h' = "h @ [h ! (cs ! idx)]"
    have "search_loop cs sims th rest (results @ [(length h, sims ! idx)]) ?h' = (r, h')"
      using Cons.prems True by (simp add: alloc_def)
    from Cons.IH [OF this] show ?thesis by auto
  next
    case False
    then consider "\<not> idx < length sims" | "idx < length sims" "\<not> th \<le> sims ! idx"
      | "idx < length sims" "th \<le> sims ! idx" "\<not> idx < length cs" by blast
    then show ?thesis
    proof cases
      case 1
      then show ?thesis using Cons.prems by (auto simp: result_refs_def)
    next
      case 2
      then have "search_loop cs sims th rest results h = (r, h')" using Cons.prems by simp
      from Cons.IH [OF this] show ?thesis .
    next
      case 3
      then show ?thesis using Cons.prems by (auto simp: result_refs_def)
    qed
  qed
qed

lemma search_frame:
  assumes "search lib s q k th h = (r, h')"
  shows "(\<exists>ext. h' = h @ ext) \<and> set (result_refs r) \<subseteq> {length h..<length h'}"
proof (cases "is_indexed s")
  case False
  then show ?thesis using assms by (auto simp: search_def result_refs_def)
next
  case True
  show ?thesis
  proof (cases "vectorizer s")
    case None
    then show ?thesis using assms True by (auto simp: search_def result_refs_def)
  next
    case (Some m)
    then have "search_loop (chunks s) (similarities lib m (vectors s) q) th
                 (top_indices lib (similarities lib m (vectors s) q) k) [] h = (r, h')"
      using assms True by (simp add: search_def Let_def)
    from search_loop_frame [OF this] show ?thesis by simp
  qed
qed

lemma is_argsort_in_range:
  "is_argsort xs p \<Longrightarrow> list_all (\<lambda>i. i < length xs) (slice_to k (rev p))"
  using slice_to_subset [of k "rev p"] by (auto simp: is_argsort_def list_all_iff)

lemma length_similarities:
  "length (similarities lib m (Some vs) q) = length vs"
  by (simp add: similarities_def Let_def)

text \<open>\<open>search\<close> on a built index, in closed form.\<close>

lemma search_built:
  assumes "built s" and "vectorizer s = Some m" and "refs_ok (chunks s) h"
    and "is_argsort (similarities lib m (vectors s) q) (argsort lib (similarities lib m (vectors s) q))"
  shows "search lib s q k th h =
           (let sims = similarities lib m (vectors s) q;
                hits = filter (\<lambda>i. th \<le> sims ! i) (top_indices lib sims k)
            in (Inr (zip [length h..<length h + length hits] (map (\<lambda>i. sims ! i) hits)),
                h @ map (\<lambda>i. h ! (chunks s ! i)) hits))"
proof -
  let ?sims = "similarities lib m (vectors s) q"
  obtain vs where vs: "vectors s = Some vs" and len: "length vs = length (chunks s)"
    using assms(1) by (auto simp: built_def aligned_def vector_rows_def)
  have "length ?sims = length (chunks s)" using vs len by (simp add: length_similarities)
  then have "list_all (\<lambda>i. i < length ?sims \<and> i < length (chunks s)) (top_indices lib ?sims k)"
    using is_argsort_in_range [OF assms(4), of k] by (simp add: top_indices_def list_all_iff)
  from search_loop_hits [OF this assms(3), of th "[]"] show ?thesis
    using assms(1,2) by (simp add: search_def built_def Let_def)
qed

subsection \<open>The order of the positions\<close>

lemma is_argsort_desc:
  assumes "is_argsort xs p"
  shows "sorted_wrt (\<ge>) (map (\<lambda>i. xs ! i) (rev p))"
proof -
  have "sorted (map (\<lambda>i. xs ! i) p)" using assms by (simp add: is_argsort_def)
  then have "sorted_wrt (\<lambda>x y. y \<le> x) (rev (map (\<lambda>i. xs ! i) p))"
    by (simp add: sorted_wrt_rev)
  then show ?thesis by (simp add: rev_map)
qed

lemma is_argsort_set:
  assumes "is_argsort xs p"
  shows "set p = {..<length xs}"
proof -
  have sub: "set p \<subseteq> {..<length xs}" using assms by (auto simp: is_argsort_def list_all_iff)
  have "card (set p) = length xs" using assms by (simp add: is_argsort_def distinct_card)
  then show ?thesis using sub by (simp add: card_subset_eq)
qed

lemma top_are_highest:
  assumes "is_argsort xs p" and "i < length xs" and "i \<notin> set (take n (rev p))"
    and "j \<in> set (take n (rev p))"
  shows "xs ! i \<le> xs ! j"
proof -
  have "i \<in> set (rev p)" using assms(1,2) is_argsort_set [OF assms(1)] by simp
  then have "i \<in> set (take n (rev p) @ drop n (rev p))" by simp
  then have i: "i \<in> set (drop n (rev p))" using assms(3) by (simp del: append_take_drop_id)
  have "sorted_wrt (\<ge>) (map (\<lambda>i. xs ! i) (take n (rev p) @ drop n (rev p)))"
    using is_argsort_desc [OF assms(1)] by simp
  then have "\<forall>a\<in>set (take n (rev p)). \<forall>b\<in>set (drop n (rev p)). xs ! b \<le> xs ! a"
    by (simp add: sorted_wrt_append del: append_take_drop_id)
  then show ?thesis using i assms(4) by blast
qed

lemma hits_desc:
  assumes "is_argsort xs p"
  shows "sorted_wrt (\<ge>) (map (\<lambda>i. xs ! i) (filter P (slice_to k (rev p))))"
proof -
  have "sorted_wrt (\<lambda>a b. xs ! a \<ge> xs ! b) (rev p)"
    using is_argsort_desc [OF assms] by (simp add: sorted_wrt_map)
  then have "sorted_wrt (\<lambda>a b. xs ! a \<ge> xs ! b) (slice_to k (rev p))"
    by (simp add: slice_to_def sorted_wrt_take)
  then have "sorted_wrt (\<lambda>a b. xs ! a \<ge> xs ! b) (filter P (slice_to k (rev p)))"
    by (rule sorted_wrt_filter)
  then show ?thesis by (simp add: sorted_wrt_map)
qed

lemma copies_read_back:
  "map (\<lambda>(a, sc). ((h @ map f hits) ! a, sc)) (zip [length h..<length h + length hits] (map g hits)) =
     map (\<lambda>i. (f i, g i)) hits"
  by (rule nth_equalityI) (simp_all add: nth_append)

lemma length_filter_mono:
  "(\<And>x. P x \<Longrightarrow> Q x) \<Longrightarrow> length (filter P xs) \<le> length (filter Q xs)"
  by (induction xs) auto

subsection \<open>The concrete stores\<close>

lemma trio_built: "built trio_store"
  by code_simp

lemma trio_vectorizer: "vectorizer trio_store = Some trio_vocabulary"
  by code_simp

lemma trio_refs: "refs_ok (chunks trio_store) trio_heap"
  by code_simp

lemma trio_argsort: "argsort_ok overlap_library trio_store ''alpha''"
  by code_simp

lemma trio_is_argsort: "is_argsort trio_sims (argsort overlap_library trio_sims)"
  by code_simp

lemma trio_sims_values: "trio_sims = [1/2, 1, 0]"
  by code_simp

subsection \<open>Building from no chunks\<close>

text \<open>
  Claim C1, as the code has it. \<open>add_chunks\<close> with an empty sequence raises nothing:
  \<open>_build_index\<close> returns at once, so the call returns normally with the empty sequence
  stored and everything else as it was. On a store that was not built the index stays
  not built, and every later \<open>search\<close> returns the empty sequence and leaves the heap
  alone.
\<close>

theorem add_chunks_empty_returns_normally:
  "add_chunks lib [] s h = (None, s\<lparr>chunks := []\<rparr>) \<and>
   (\<not> is_indexed s \<longrightarrow>
      \<not> is_indexed (s\<lparr>chunks := []\<rparr>) \<and>
      (\<forall>q k th h'. search lib (s\<lparr>chunks := []\<rparr>) q k th h' = (Inr [], h')))"
  by (simp add: add_chunks_def build_index_def search_def)

text \<open>Witness of C1: a new store, which is not built.\<close>

theorem add_chunks_empty_returns_normally_witness:
  "\<not> is_indexed fresh_store \<and>
   add_chunks overlap_library [] fresh_store [] = (None, fresh_store\<lparr>chunks := []\<rparr>) \<and>
   \<not> is_indexed (fresh_store\<lparr>chunks := []\<rparr>) \<and>
   (\<forall>q k th h'. search overlap_library (fresh_store\<lparr>chunks := []\<rparr>) q k th h' = (Inr [], h'))"
  using add_chunks_empty_returns_normally [of overlap_library fresh_store "[]"]
  by (simp add: fresh_store_def VectorStore_init_def)

text \<open>
  Claim C1 as stated fails: \<open>add_chunks\<close> with an empty sequence on a new store raises
  no exception.
\<close>

theorem add_chunks_empty_raises_nothing:
  "fst (add_chunks overlap_library [] fresh_store []) = None"
  by code_simp

text \<open>
  Claim C3 on a store that was built from two chunks: \<open>add_chunks\<close> with an empty
  sequence replaces the chunks and returns before it touches the rows, so the store is
  left indexed with two rows and no chunk, and the next \<open>search\<close> raises
  \<open>IndexError\<close> at \<open>self.chunks[idx]\<close>.
\<close>

theorem add_chunks_empty_after_build_breaks_alignment:
  "aligned twin_store \<and>
   fst (add_chunks overlap_library [] twin_store twin_heap) = None \<and>
   length (chunks emptied_store) = 0 \<and> vector_rows emptied_store = 2 \<and>
   is_indexed emptied_store \<and> \<not> aligned emptied_store \<and>
   fst (search overlap_library emptied_store ''alpha'' 5 0 twin_heap) = Inl IndexError"
  by code_simp

subsection \<open>What search returns\<close>

text \<open>
  Claim C5, as the code has it. On a built index, with \<open>top_k\<close> not negative, and
  \<open>argsort\<close> keeping its promise on the similarities of the query, \<open>search\<close> returns
  copies of exactly the chunks at the first \<open>top_k\<close> positions of the reversed
  \<open>argsort\<close> whose similarity is at least the threshold, each with its similarity, in
  that order; the scores are in descending order; the first \<open>top_k\<close> positions are
  \<open>min top_k n\<close> positions whose similarities are at least those of all other
  positions. The order among equal similarities is the reverse of the order in which
  \<open>argsort\<close> gives them; the chunk identifiers play no part.
\<close>

theorem search_returns_top_hits:
  assumes "built s" and "vectorizer s = Some m" and "refs_ok (chunks s) h"
    and "sims = similarities lib m (vectors s) q"
    and "is_argsort sims (argsort lib sims)"
    and "0 \<le> k"
  shows "\<exists>res h'. search lib s q k th h = (Inr res, h') \<and>
           map (\<lambda>(a, sc). (h' ! a, sc)) res =
             map (\<lambda>i. (h ! (chunks s ! i), sims ! i))
                 (filter (\<lambda>i. th \<le> sims ! i) (take (nat k) (rev (argsort lib sims)))) \<and>
           sorted_wrt (\<ge>) (map snd res) \<and>
           length (take (nat k) (rev (argsort lib sims))) = min (nat k) (length (chunks s)) \<and>
           (\<forall>i j. i < length (chunks s) \<and> i \<notin> set (take (nat k) (rev (argsort lib sims))) \<and>
                  j \<in> set (take (nat k) (rev (argsort lib sims))) \<longrightarrow> sims ! i \<le> sims ! j)"
proof -
  let ?top = "take (nat k) (rev (argsort lib sims))"
  let ?hits = "filter (\<lambda>i. th \<le> sims ! i) ?top"
  let ?res = "zip [length h..<length h + length ?hits] (map (\<lambda>i. sims ! i) ?hits)"
  let ?h' = "h @ map (\<lambda>i. h ! (chunks s ! i)) ?hits"
  have top: "top_indices lib sims k = ?top" using assms(6) by (simp add: top_indices_def slice_to_def)
  have srt: "is_argsort (similarities lib m (vectors s) q)
                        (argsort lib (similarities lib m (vectors s) q))"
    using assms(4,5) by simp
  have run: "search lib s q k th h = (Inr ?res, ?h')"
    using search_built [OF assms(1,2,3) srt, of k th, folded assms(4)]
    by (simp add: Let_def top)
  obtain vs where vs: "vectors s = Some vs" and len: "length vs = length (chunks s)"
    using assms(1) by (auto simp: built_def aligned_def vector_rows_def)
  have n: "length sims = length (chunks s)" using vs len assms(4) by (simp add: length_similarities)
  have read: "map (\<lambda>(a, sc). (?h' ! a, sc)) ?res = map (\<lambda>i. (h ! (chunks s ! i), sims ! i)) ?hits"
    by (rule copies_read_back)
  have desc: "sorted_wrt (\<ge>) (map snd ?res)"
    using hits_desc [OF assms(5), of "\<lambda>i. th \<le> sims ! i" k] assms(6) by (simp add: slice_to_def)
  have lent: "length ?top = min (nat k) (length (chunks s))"
    using assms(5) n by (simp add: is_argsort_def min.commute)
  have high: "\<forall>i j. i < length (chunks s) \<and> i \<notin> set ?top \<and> j \<in> set ?top \<longrightarrow> sims ! i \<le> sims ! j"
    using top_are_highest [OF assms(5)] n by auto
  show ?thesis using run read desc lent high by blast
qed

text \<open>Witness of C5: the two most similar of three chunks, in descending order.\<close>

theorem search_returns_top_hits_witness:
  "built trio_store \<and> vectorizer trio_store = Some trio_vocabulary \<and>
   refs_ok (chunks trio_store) trio_heap \<and>
   is_argsort trio_sims (argsort overlap_library trio_sims) \<and> (0::int) \<le> 2 \<and>
   (\<exists>res h'. search overlap_library trio_store ''alpha'' 2 (3/10) trio_heap = (Inr res, h') \<and>
      map (\<lambda>(a, sc). (chunk_id (h' ! a), sc)) res = [(1, 1), (0, 1/2)] \<and>
      sorted_wrt (\<ge>) (map snd res))"
proof -
  have k: "(0::int) \<le> 2" by simp
  have hits: "map (\<lambda>(c, sc). (chunk_id c, sc))
                (map (\<lambda>i. (trio_heap ! (chunks trio_store ! i), trio_sims ! i))
                   (filter (\<lambda>i. 3/10 \<le> trio_sims ! i)
                      (take (nat 2) (rev (argsort overlap_library trio_sims)))))
              = [(1, 1), (0, 1/2)]"
    by code_simp
  obtain res h' where run: "search overlap_library trio_store ''alpha'' 2 (3/10) trio_heap = (Inr res, h')"
    and read: "map (\<lambda>(a, sc). (h' ! a, sc)) res =
             map (\<lambda>i. (trio_heap ! (chunks trio_store ! i), trio_sims ! i))
                 (filter (\<lambda>i. 3/10 \<le> trio_sims ! i) (take (nat 2) (rev (argsort overlap_library trio_sims))))"
    and desc: "sorted_wrt (\<ge>) (map snd res)"
    using search_returns_top_hits [OF trio_built trio_vectorizer trio_refs trio_sims_def trio_is_argsort k, of "3/10"]
    by blast
  have "map (\<lambda>(a, sc). (chunk_id (h' ! a), sc)) res =
        map (\<lambda>(c, sc). (chunk_id c, sc)) (map (\<lambda>(a, sc). (h' ! a, sc)) res)"
    by (simp add: split_beta)
  also have "\<dots> = [(1, 1), (0, 1/2)]"
    unfolding read by (rule hits)
  finally have ids: "map (\<lambda>(a, sc). (chunk_id (h' ! a), sc)) res = [(1, 1), (0, 1/2)]" .
  have ex: "\<exists>res h'. search overlap_library trio_store ''alpha'' 2 (3/10) trio_heap = (Inr res, h') \<and>
      map (\<lambda>(a, sc). (chunk_id (h' ! a), sc)) res = [(1, 1), (0, 1/2)] \<and>
      sorted_wrt (\<ge>) (map snd res)"
    by (intro exI conjI) (rule run, rule ids, rule desc)
  show ?thesis
    by (intro conjI) (rule trio_built, rule trio_vectorizer, rule trio_refs,
                      rule trio_is_argsort, rule k, rule ex)
qed

text \<open>
  Claim C5 as stated fails on ties: two chunks with the same text are equally similar
  to the query, and with a stable \<open>argsort\<close> the reversal returns the copy of the chunk
  with identifier 1 before the copy of the chunk with identifier 0.
\<close>

theorem search_ties_come_in_descending_position:
  "fst (search overlap_library twin_store ''alpha'' 5 0 twin_heap) = Inr [(2, 1/2), (3, 1/2)] \<and>
   chunk_id (snd (search overlap_library twin_store ''alpha'' 5 0 twin_heap) ! 2) = 1 \<and>
   chunk_id (snd (search overlap_library twin_store ''alpha'' 5 0 twin_heap) ! 3) = 0"
  by code_simp

text \<open>
  Claim C8. On a built index, for a fixed query and \<open>top_k\<close>, \<open>search\<close> returns a
  result for both thresholds, and the higher threshold does not return more results.
\<close>

theorem search_threshold_monotone:
  assumes "built s" and "refs_ok (chunks s) h" and "argsort_ok lib s q" and "t1 \<le> t2"
  shows "\<exists>r1 r2 h1 h2. search lib s q k t1 h = (Inr r1, h1) \<and> search lib s q k t2 h = (Inr r2, h2) \<and>
           length r2 \<le> length r1"
proof -
  obtain m where m: "vectorizer s = Some m" using assms(1) by (auto simp: built_def)
  let ?sims = "similarities lib m (vectors s) q"
  let ?top = "top_indices lib ?sims k"
  have srt: "is_argsort ?sims (argsort lib ?sims)" using assms(3) m by (simp add: argsort_ok_def)
  have "length (filter (\<lambda>i. t2 \<le> ?sims ! i) ?top) \<le> length (filter (\<lambda>i. t1 \<le> ?sims ! i) ?top)"
    using assms(4) by (intro length_filter_mono) simp
  then show ?thesis
    using search_built [OF assms(1) m assms(2) srt, of k t1]
          search_built [OF assms(1) m assms(2) srt, of k t2]
    by (simp add: Let_def)
qed

text \<open>Witness of C8: the thresholds 0.3 and 0.6 on the three chunks.\<close>

theorem search_threshold_monotone_witness:
  "built trio_store \<and> refs_ok (chunks trio_store) trio_heap \<and>
   argsort_ok overlap_library trio_store ''alpha'' \<and> (3/10 :: real) \<le> 6/10 \<and>
   (\<exists>r1 r2 h1 h2.
      search overlap_library trio_store ''alpha'' 5 (3/10) trio_heap = (Inr r1, h1) \<and>
      search overlap_library trio_store ''alpha'' 5 (6/10) trio_heap = (Inr r2, h2) \<and>
      length r2 \<le> length r1)"
proof -
  have le: "(3/10 :: real) \<le> 6/10" by simp
  show ?thesis
    using search_threshold_monotone [OF trio_built trio_refs trio_argsort le, of 5]
      trio_built trio_refs trio_argsort le
    by blast
qed

section \<open>Properties of the retriever\<close>

subsection \<open>The reranker\<close>

lemma query_terms_empty_iff: "query_terms q = [] \<longleftrightarrow> str_split (str_lower q) = []"
  by (simp add: query_terms_def)

lemma length_query_terms: "length (query_terms q) = card (set (str_split (str_lower q)))"
  by (simp add: query_terms_def length_remdups_card_conv)

lemma count_query_terms:
  "length (filter P (query_terms q)) = card {w \<in> set (str_split (str_lower q)). P w}"
proof -
  have "distinct (filter P (query_terms q))" by (simp add: query_terms_def)
  then have "length (filter P (query_terms q)) = card (set (filter P (query_terms q)))"
    by (rule distinct_card [symmetric])
  also have "set (filter P (query_terms q)) = {w \<in> set (str_split (str_lower q)). P w}"
    by (auto simp: query_terms_def)
  finally show ?thesis .
qed

lemma rerank_loop_scores:
  assumes "query_terms q \<noteq> []"
  shows "rerank_loop q h results scored =
           Inr (scored @ map (\<lambda>(a, b). (a, lowered_final_score q (h ! a) b)) results)"
  using assms
proof (induction results arbitrary: scored)
  case Nil
  then show ?case by simp
next
  case (Cons r rest)
  obtain a b where r: "r = (a, b)" by (cases r)
  have score: "b + (if str_contains (str_lower q) (str_lower (chunk_text (h ! a))) then 0.2 else 0)
        + real (length (filter (\<lambda>term. str_contains term (str_lower (chunk_text (h ! a)))) (query_terms q)))
            / real (length (query_terms q)) * 0.1
        + min (real_of_int (char_count (h ! a)) / 1000) 1.0 * 0.05
      = lowered_final_score q (h ! a) b"
    by (simp add: lowered_final_score_def Let_def count_query_terms length_query_terms)
  have "rerank_loop q h (r # rest) scored =
        rerank_loop q h rest (scored @ [(a, lowered_final_score q (h ! a) b)])"
    using Cons.prems unfolding r rerank_loop.simps Let_def score by simp
  then show ?case using Cons.IH [OF Cons.prems] by (simp add: r)
qed

lemma rerank_loop_no_terms:
  assumes "query_terms q = []" and "results \<noteq> []"
  shows "rerank_loop q h results scored = Inl ZeroDivisionError"
proof (cases results)
  case Nil
  then show ?thesis using assms(2) by simp
next
  case (Cons r rest)
  obtain a b where "r = (a, b)" by (cases r)
  then show ?thesis using assms(1) Cons by (simp add: Let_def)
qed

lemma rerank_results_cases:
  "rerank_results q results h =
     (if results \<noteq> [] \<and> str_split (str_lower q) = [] then Inl ZeroDivisionError
      else Inr (sort_by_score_desc (map (\<lambda>(a, b). (a, lowered_final_score q (h ! a) b)) results)))"
proof (cases "results = []")
  case True
  then show ?thesis by (simp add: rerank_results_def sort_by_score_desc_def)
next
  case False
  show ?thesis
  proof (cases "query_terms q = []")
    case True
    then show ?thesis
      using False rerank_loop_no_terms [OF True False]
      by (simp add: rerank_results_def query_terms_empty_iff)
  next
    case nonempty: False
    then show ?thesis
      using False rerank_loop_scores [OF nonempty, of h results "[]"]
      by (simp add: rerank_results_def query_terms_empty_iff)
  qed
qed






subsection \<open>The heap after retrieve\<close>

lemma format_results_frame:
  "format_results xs h = (formatted, h') \<Longrightarrow>
     formatted = map fst xs \<and> length h' = length h \<and>
     (\<forall>a. a \<notin> set (map fst xs) \<longrightarrow> h' ! a = h ! a)"
proof (induction xs arbitrary: h formatted h')
  case Nil
  then show ?case by simp
next
  case (Cons x xs)
  obtain a sc where x: "x = (a, sc)" by (cases x)
  let ?h1 = "h[a := (h ! a)\<lparr>relevance_score := Some sc\<rparr>]"
  obtain f1 h1 where rec: "format_results xs ?h1 = (f1, h1)" by (cases "format_results xs ?h1")
  have out: "formatted = a # f1" "h' = h1" using Cons.prems rec by (simp_all add: x)
  from Cons.IH [OF rec] have ih: "f1 = map fst xs" "length h1 = length h"
    "\<forall>b. b \<notin> set (map fst xs) \<longrightarrow> h1 ! b = ?h1 ! b" by simp_all
  show ?case using ih out by (auto simp: x)
qed

lemma set_sort_by_score_desc: "set (sort_by_score_desc xs) = set xs"
  by (simp add: sort_by_score_desc_def)

lemma filter_by_document_subset: "set (filter_by_document fd h xs) \<subseteq> set xs"
  by (auto simp: filter_by_document_def split: option.splits)

lemma rerank_results_refs:
  assumes "rerank_results q results h = Inr out"
  shows "set (map fst out) \<subseteq> set (map fst results)"
proof -
  have "out = sort_by_score_desc (map (\<lambda>(a, b). (a, lowered_final_score q (h ! a) b)) results)"
    using assms by (simp add: rerank_results_cases split: if_splits)
  then have "set (map fst out) = set (map fst (map (\<lambda>(a, b). (a, lowered_final_score q (h ! a) b)) results))"
    by (simp only: set_map set_sort_by_score_desc)
  also have "map fst (map (\<lambda>(a, b). (a, lowered_final_score q (h ! a) b)) results) = map fst results"
    by (simp add: split_beta)
  finally show ?thesis by simp
qed

text \<open>
  \<open>retrieve\<close> leaves every dictionary that was on the heap before the call as it
  was.
\<close>

lemma retrieve_frame:
  "take (length h) (snd (retrieve lib s q mr th fd h)) = h"
proof -
  obtain r h1 where srch: "search lib s (enhance_query q) (mr * 2) th h = (r, h1)"
    by (cases "search lib s (enhance_query q) (mr * 2) th h")
  from search_frame [OF srch] obtain ext where h1: "h1 = h @ ext"
    and fresh: "set (result_refs r) \<subseteq> {length h..<length h1}" by blast
  show ?thesis
  proof (cases r)
    case (Inl e)
    then show ?thesis using srch h1 by (simp add: retrieve_def)
  next
    case (Inr results)
    let ?cands = "filter_by_document fd h1 results"
    show ?thesis
    proof (cases "rerank_results q ?cands h1")
      case (Inl e)
      then show ?thesis using srch Inr h1 by (simp add: retrieve_def)
    next
      case ranked: (Inr reranked)
      obtain formatted h2 where fmt: "format_results (slice_to mr reranked) h1 = (formatted, h2)"
        by (cases "format_results (slice_to mr reranked) h1")
      have "set (map fst (slice_to mr reranked)) \<subseteq> set (map fst reranked)"
        using slice_to_subset [of mr reranked] by auto
      also have "\<dots> \<subseteq> set (map fst ?cands)" using rerank_results_refs [OF ranked] .
      also have "\<dots> \<subseteq> set (map fst results)" using filter_by_document_subset [of fd h1 results] by auto
      also have "\<dots> \<subseteq> {length h..<length h1}" using fresh Inr by (simp add: result_refs_def)
      finally have written: "set (map fst (slice_to mr reranked)) \<subseteq> {length h..<length h1}" .
      from format_results_frame [OF fmt] have len: "length h2 = length h1"
        and same: "\<forall>a. a \<notin> set (map fst (slice_to mr reranked)) \<longrightarrow> h2 ! a = h1 ! a" by simp_all
      have "take (length h) h2 = h"
      proof (rule nth_equalityI)
        show "length (take (length h) h2) = length h" using len h1 by simp
      next
        fix i assume "i < length (take (length h) h2)"
        then have i: "i < length h" by simp
        then have "i \<notin> set (map fst (slice_to mr reranked))" using written by auto
        then have "h2 ! i = h1 ! i" using same by blast
        then show "take (length h) h2 ! i = h ! i" using i h1 by (simp add: nth_append)
      qed
      then show ?thesis using srch Inr ranked fmt by (simp add: retrieve_def)
    qed
  qed
qed

text \<open>
  Claim C9. The references that \<open>search\<close> returns are not references of the store, and
  the stored chunks read the same after \<open>search\<close> and after \<open>retrieve\<close>, whatever the
  call returns or raises: the \<open>relevance_score\<close> entries go to the copies.
\<close>

theorem retrieve_leaves_stored_chunks:
  assumes "refs_ok (chunks s) h"
  shows "set (result_refs (fst (search lib s q k th h))) \<inter> set (chunks s) = {} \<and>
         map (\<lambda>a. snd (search lib s q k th h) ! a) (chunks s) = map (\<lambda>a. h ! a) (chunks s) \<and>
         map (\<lambda>a. snd (retrieve lib s q mr th fd h) ! a) (chunks s) = map (\<lambda>a. h ! a) (chunks s)"
proof -
  have old: "a \<in> set (chunks s) \<Longrightarrow> a < length h" for a
    using assms by (simp add: refs_ok_def list_all_iff)
  obtain r h1 where srch: "search lib s q k th h = (r, h1)" by (cases "search lib s q k th h")
  from search_frame [OF srch] obtain ext where h1: "h1 = h @ ext"
    and fresh: "set (result_refs r) \<subseteq> {length h..<length h1}" by blast
  have disjoint: "set (result_refs r) \<inter> set (chunks s) = {}"
    using fresh old by fastforce
  have kept: "map (\<lambda>a. h1 ! a) (chunks s) = map (\<lambda>a. h ! a) (chunks s)"
    using old h1 by (simp add: nth_append)
  have "take (length h) (snd (retrieve lib s q mr th fd h)) ! a = snd (retrieve lib s q mr th fd h) ! a"
    if "a \<in> set (chunks s)" for a
    using old [OF that] by simp
  then have after: "map (\<lambda>a. snd (retrieve lib s q mr th fd h) ! a) (chunks s) = map (\<lambda>a. h ! a) (chunks s)"
    by (simp add: retrieve_frame)
  show ?thesis using disjoint kept after srch by simp
qed

text \<open>
  Witness of C9: the two results are the dictionaries at 3 and 4, allocated by the call;
  they carry the scores, the three stored chunks carry none.
\<close>

theorem retrieve_leaves_stored_chunks_witness:
  "refs_ok (chunks trio_store) trio_heap \<and>
   set (result_refs (fst (search overlap_library trio_store ''alpha'' 10 (3/10) trio_heap)))
     \<inter> set (chunks trio_store) = {} \<and>
   map (\<lambda>a. snd (search overlap_library trio_store ''alpha'' 10 (3/10) trio_heap) ! a)
       (chunks trio_store) = map (\<lambda>a. trio_heap ! a) (chunks trio_store) \<and>
   map (\<lambda>a. snd (retrieve overlap_library trio_store ''alpha'' 5 (3/10) None trio_heap) ! a)
       (chunks trio_store) = map (\<lambda>a. trio_heap ! a) (chunks trio_store) \<and>
   fst (retrieve overlap_library trio_store ''alpha'' 5 (3/10) None trio_heap) = Inr [3, 4] \<and>
   map relevance_score (snd (retrieve overlap_library trio_store ''alpha'' 5 (3/10) None trio_heap)) =
     [None, None, None, Some (5201 / 4000), Some (1601 / 2000)]"
proof -
  have refs: "fst (retrieve overlap_library trio_store ''alpha'' 5 (3/10) None trio_heap) = Inr [3, 4]"
    by code_simp
  have scores: "map relevance_score
                  (snd (retrieve overlap_library trio_store ''alpha'' 5 (3/10) None trio_heap)) =
                [None, None, None, Some (5201 / 4000), Some (1601 / 2000)]"
    by code_simp
  show ?thesis
    using retrieve_leaves_stored_chunks [OF trio_refs, of overlap_library "''alpha''" 10 "3/10" 5 None]
      trio_refs refs scores
    by blast
qed

subsection \<open>The outcome of retrieve\<close>

text \<open>The outcome of \<open>retrieve\<close> once \<open>search\<close> has returned.\<close>

lemma retrieve_outcome:
  assumes "fst (search lib s (enhance_query q) (mr * 2) th h) = Inr results"
  shows "fst (retrieve lib s q mr th fd h) =
           (let h' = snd (search lib s (enhance_query q) (mr * 2) th h);
                candidates = filter_by_document fd h' results
            in if candidates \<noteq> [] \<and> str_split (str_lower q) = [] then Inl ZeroDivisionError
               else Inr (map fst (slice_to mr (sort_by_score_desc
                      (map (\<lambda>(a, b). (a, lowered_final_score q (h' ! a) b)) candidates)))))"
proof -
  obtain r h1 where srch: "search lib s (enhance_query q) (mr * 2) th h = (r, h1)"
    by (cases "search lib s (enhance_query q) (mr * 2) th h")
  then have r: "r = Inr results" using assms by simp
  let ?cands = "filter_by_document fd h1 results"
  let ?ranked = "sort_by_score_desc (map (\<lambda>(a, b). (a, lowered_final_score q (h1 ! a) b)) ?cands)"
  show ?thesis
  proof (cases "?cands \<noteq> [] \<and> str_split (str_lower q) = []")
    case True
    then have "rerank_results q ?cands h1 = Inl ZeroDivisionError"
      by (simp add: rerank_results_cases)
    then show ?thesis using srch r True by (simp add: retrieve_def Let_def)
  next
    case False
    then have rr: "rerank_results q ?cands h1 = Inr ?ranked"
      by (simp add: rerank_results_cases)
    obtain formatted h2 where fmt: "format_results (slice_to mr ?ranked) h1 = (formatted, h2)"
      by (cases "format_results (slice_to mr ?ranked) h1")
    then have "formatted = map fst (slice_to mr ?ranked)" using format_results_frame by blast
    then show ?thesis using srch r rr fmt False by (simp add: retrieve_def Let_def)
  qed
qed

text \<open>
  Claim C10. Once \<open>search\<close> has returned its results, \<open>retrieve\<close> raises
  \<open>ZeroDivisionError\<close> when candidates are left after the document filter and the query
  has no whitespace-delimited term, and returns a result in every other case.
\<close>

theorem retrieve_fails_exactly_without_terms:
  assumes "fst (search lib s (enhance_query q) (mr * 2) th h) = Inr results"
    and "candidates = filter_by_document fd (snd (search lib s (enhance_query q) (mr * 2) th h)) results"
  shows "(candidates \<noteq> [] \<and> str_split (str_lower q) = [] \<longrightarrow>
            fst (retrieve lib s q mr th fd h) = Inl ZeroDivisionError) \<and>
         (candidates = [] \<or> str_split (str_lower q) \<noteq> [] \<longrightarrow>
            (\<exists>res. fst (retrieve lib s q mr th fd h) = Inr res))"
  using retrieve_outcome [OF assms(1), of fd] assms(2) by (auto simp: Let_def)

text \<open>
  Witness of C10: the query of one space has no term, is as similar (0) to every chunk
  as the threshold 0 asks, and \<open>retrieve\<close> does not return.
\<close>

theorem retrieve_fails_exactly_without_terms_witness:
  "fst (search overlap_library trio_store (enhance_query '' '') (5 * 2) 0 trio_heap) =
     Inr [(3, 0), (4, 0), (5, 0)] \<and>
   filter_by_document None
     (snd (search overlap_library trio_store (enhance_query '' '') (5 * 2) 0 trio_heap))
     [(3, 0), (4, 0), (5, 0)] \<noteq> [] \<and>
   str_split (str_lower '' '') = [] \<and>
   fst (retrieve overlap_library trio_store '' '' 5 0 None trio_heap) = Inl ZeroDivisionError"
proof -
  have found: "fst (search overlap_library trio_store (enhance_query '' '') (5 * 2) 0 trio_heap) =
                 Inr [(3, 0), (4, 0), (5, 0)]"
    by code_simp
  have candidates: "filter_by_document None
     (snd (search overlap_library trio_store (enhance_query '' '') (5 * 2) 0 trio_heap))
     [(3, 0), (4, 0), (5, 0)] \<noteq> []"
    by (simp add: filter_by_document_def)
  have no_terms: "str_split (str_lower '' '') = []" by code_simp
  have "fst (retrieve overlap_library trio_store '' '' 5 0 None trio_heap) = Inl ZeroDivisionError"
    using retrieve_fails_exactly_without_terms [where fd = None, OF found refl] candidates no_terms
    by blast
  then show ?thesis using found candidates no_terms by blast
qed

text \<open>
  Claim C4, as the code has it. \<open>retrieve\<close> does not check \<open>max_results\<close>. With
  \<open>max_results \<le> 0\<close>, on a built index, and a query with at least one term or
  \<open>max_results = 0\<close>, the call returns a result sequence, the empty one when
  \<open>max_results = 0\<close>.
\<close>

theorem retrieve_nonpositive_max_results_returns:
  assumes "mr \<le> 0" and "built s" and "refs_ok (chunks s) h"
    and "argsort_ok lib s (enhance_query q)"
    and "mr = 0 \<or> str_split (str_lower q) \<noteq> []"
  shows "\<exists>res h'. retrieve lib s q mr th fd h = (Inr res, h') \<and> (mr = 0 \<longrightarrow> res = [])"
proof -
  obtain m where m: "vectorizer s = Some m" using assms(2) by (auto simp: built_def)
  let ?sims = "similarities lib m (vectors s) (enhance_query q)"
  have srt: "is_argsort ?sims (argsort lib ?sims)" using assms(4) m by (simp add: argsort_ok_def)
  obtain results h1 where srch: "search lib s (enhance_query q) (mr * 2) th h = (Inr results, h1)"
    and zero: "mr = 0 \<longrightarrow> results = []"
    using search_built [OF assms(2) m assms(3) srt, of "mr * 2" th]
    by (simp add: Let_def top_indices_def slice_to_def)
  let ?cands = "filter_by_document fd h1 results"
  have cz: "mr = 0 \<longrightarrow> ?cands = []" using zero by (simp add: filter_by_document_def split: option.splits)
  then have ok: "\<not> (?cands \<noteq> [] \<and> str_split (str_lower q) = [])" using assms(5) by blast
  have first: "fst (search lib s (enhance_query q) (mr * 2) th h) = Inr results" using srch by simp
  have out: "fst (retrieve lib s q mr th fd h) =
     Inr (map fst (slice_to mr (sort_by_score_desc
            (map (\<lambda>(a, b). (a, lowered_final_score q (h1 ! a) b)) ?cands))))"
    using retrieve_outcome [OF first, of fd] ok srch by (simp add: Let_def)
  have pair: "retrieve lib s q mr th fd h =
                (fst (retrieve lib s q mr th fd h), snd (retrieve lib s q mr th fd h))"
    by simp
  have "mr = 0 \<longrightarrow> map fst (slice_to mr (sort_by_score_desc
            (map (\<lambda>(a, b). (a, lowered_final_score q (h1 ! a) b)) ?cands))) = []"
    by (simp add: slice_to_def)
  then show ?thesis using out pair by metis
qed

lemma alpha_has_terms: "str_split (str_lower ''alpha'') \<noteq> []"
  by code_simp

lemma trio_argsort_enhanced: "argsort_ok overlap_library trio_store (enhance_query ''alpha'')"
  by code_simp

text \<open>Witness of C4: \<open>max_results = -1\<close> on the three chunks.\<close>

theorem retrieve_nonpositive_max_results_returns_witness:
  "(- 1 :: int) \<le> 0 \<and> built trio_store \<and> refs_ok (chunks trio_store) trio_heap \<and>
   argsort_ok overlap_library trio_store (enhance_query ''alpha'') \<and>
   str_split (str_lower ''alpha'') \<noteq> [] \<and>
   (\<exists>res h'. retrieve overlap_library trio_store ''alpha'' (- 1) (3/10) None trio_heap = (Inr res, h'))"
proof -
  have neg: "(- 1 :: int) \<le> 0" by simp
  have terms: "(- 1 :: int) = 0 \<or> str_split (str_lower ''alpha'') \<noteq> []"
    using alpha_has_terms by simp
  have "\<exists>res h'. retrieve overlap_library trio_store ''alpha'' (- 1) (3/10) None trio_heap = (Inr res, h')"
    using retrieve_nonpositive_max_results_returns
            [OF neg trio_built trio_refs trio_argsort_enhanced terms, of "3/10" None]
    by blast
  then show ?thesis
    using neg trio_built trio_refs trio_argsort_enhanced alpha_has_terms by blast
qed

text \<open>
  Claim C4 as stated fails: with \<open>max_results\<close> 0 and -1 the call returns the empty
  sequence, not an error.
\<close>

theorem retrieve_nonpositive_max_results_no_error:
  "fst (retrieve overlap_library trio_store ''alpha'' 0 (3/10) None trio_heap) = Inr [] \<and>
   fst (retrieve overlap_library trio_store ''alpha'' (- 1) 0 None trio_heap) = Inr []"
  by code_simp

end
